theory Spec2Isabelle
  imports Main "HOL-Library.Word"
begin

unbundle bit_operations_syntax

section \<open>The uio byte buffer and its streams\<close>

text \<open>
  The library is one header, \<^verbatim>\<open>uio.hpp\<close>, and two further revisions of it
  (\<^verbatim>\<open>part_000\<close> and \<^verbatim>\<open>part_001\<close>).  The class \<^verbatim>\<open>streambuf\<close> of
  \<^verbatim>\<open>part_000\<close> is the one of \<^verbatim>\<open>uio.hpp\<close>; only \<^verbatim>\<open>istream::operator>>\<close>
  differs.  The revision \<^verbatim>\<open>part_001\<close> has its own \<^verbatim>\<open>streambuf\<close> (no \<^verbatim>\<open>_dump\<close>
  flag, null checks in every transfer, other names) and is modelled separately, with the
  suffix \<open>1\<close> on its types.

  \<^item> \<^verbatim>\<open>size_t\<close> is a machine word of any width \<open>'a\<close>: subtraction and addition wrap.
  \<^item> \<^verbatim>\<open>char\<close> is an 8-bit word.
  \<^item> The borrowed storage \<^verbatim>\<open>char* _buf\<close> is \<open>None\<close> for \<^verbatim>\<open>NULL\<close> and otherwise
    \<open>Some m\<close>, with \<open>m\<close> the bytes of the array it points to.
  \<^item> A transfer that touches memory outside an array, or through the null pointer, is
    undefined behaviour in C++; the model returns a \<open>fault\<close> there (\<open>Inl\<close>), and
    \<open>Inr\<close> of the returned value and the new state otherwise.  A \<^verbatim>\<open>memcpy\<close> of zero
    bytes touches no memory and never faults.
\<close>

type_synonym byte = "8 word"

datatype fault = NullDeref | OutOfBounds

subsection \<open>Memory transfers\<close>

text \<open>\<^verbatim>\<open>v1 < v2 ? v1 : v2\<close>\<close>

definition uio_min :: "'a::len word \<Rightarrow> 'a word \<Rightarrow> 'a word" where
  "uio_min v1 v2 = (if v1 < v2 then v1 else v2)"

text \<open>Reading \<open>n\<close> bytes at offset \<open>off\<close> of the array behind a pointer.\<close>

definition mem_read :: "byte list option \<Rightarrow> nat \<Rightarrow> nat \<Rightarrow> fault + byte list" where
  "mem_read p off n =
     (if n = 0 then Inr []
      else case p of
        None \<Rightarrow> Inl NullDeref
      | Some m \<Rightarrow> if off + n \<le> length m then Inr (take n (drop off m)) else Inl OutOfBounds)"

text \<open>Writing the bytes \<open>src\<close> at offset \<open>off\<close> of the array behind a pointer.\<close>

definition mem_write :: "byte list option \<Rightarrow> nat \<Rightarrow> byte list \<Rightarrow> fault + byte list option" where
  "mem_write p off src =
     (if src = [] then Inr p
      else case p of
        None \<Rightarrow> Inl NullDeref
      | Some m \<Rightarrow>
          if off + length src \<le> length m
          then Inr (Some (take off m @ src @ drop (off + length src) m))
          else Inl OutOfBounds)"

text \<open>
  \<^verbatim>\<open>memcpy(_buf + off, s, n)\<close>: the first \<open>n\<close> bytes of the source array \<open>s\<close> go to the
  storage; reading past the end of \<open>s\<close> is a fault.
\<close>

definition memcpy_in :: "byte list option \<Rightarrow> nat \<Rightarrow> byte list \<Rightarrow> nat \<Rightarrow> fault + byte list option" where
  "memcpy_in p off s n =
     (if length s < n then Inl OutOfBounds else mem_write p off (take n s))"

subsection \<open>streamerr\<close>

record streamerr =
  uninitialized :: bool
  overflow :: bool
  reserved :: "4 word"

text \<open>The constructor and \<^verbatim>\<open>clear()\<close>: \<^verbatim>\<open>memset(&_flags, 0, sizeof(_flags))\<close>.\<close>

definition streamerr_init :: streamerr where
  "streamerr_init = \<lparr>uninitialized = False, overflow = False, reserved = 0\<rparr>"

definition streamerr_clear :: "streamerr \<Rightarrow> streamerr" where
  "streamerr_clear e = \<lparr>uninitialized = False, overflow = False, reserved = 0\<rparr>"

text \<open>\<^verbatim>\<open>operator|=\<close>: the bytes of \<^verbatim>\<open>_flags\<close> are or-ed with those of \<open>other\<close>.\<close>

definition streamerr_or :: "streamerr \<Rightarrow> streamerr \<Rightarrow> streamerr" where
  "streamerr_or e other =
     \<lparr>uninitialized = (uninitialized e \<or> uninitialized other),
      overflow = (overflow e \<or> overflow other),
      reserved = (reserved e OR reserved other)\<rparr>"

subsection \<open>streambuf (\<^verbatim>\<open>uio.hpp\<close>, \<^verbatim>\<open>part_000\<close>)\<close>

record (overloaded) ('a::len) streambuf =
  sb_capacity :: "'a word"
  sb_getpos :: "'a word"
  sb_putpos :: "'a word"
  sb_dump :: bool
  sb_buf :: "byte list option"
  sb_error :: streamerr

definition streambuf_init :: "'a::len streambuf" where
  "streambuf_init =
     \<lparr>sb_capacity = 0, sb_getpos = 0, sb_putpos = 0, sb_dump = False, sb_buf = None,
      sb_error = streamerr_init\<lparr>uninitialized := True\<rparr>\<rparr>"

definition in_avail :: "'a::len streambuf \<Rightarrow> 'a word" where
  "in_avail b = sb_putpos b - sb_getpos b"

text \<open>
  \<^verbatim>\<open>sgetc\<close> and \<^verbatim>\<open>sgetn\<close> return the count together with the bytes they stored at
  the destination (none when the count is zero).
\<close>

definition sgetc :: "'a::len streambuf \<Rightarrow> fault + (('a word \<times> byte list) \<times> 'a streambuf)" where
  "sgetc b =
     (if sb_putpos b - sb_getpos b \<le> 0 then Inr ((0, []), b)
      else case mem_read (sb_buf b) (unat (sb_getpos b)) 1 of
        Inl f \<Rightarrow> Inl f
      | Inr c \<Rightarrow>
          let g = sb_getpos b + 1
          in Inr ((1, c), b\<lparr>sb_getpos := g, sb_dump := (g = sb_putpos b)\<rparr>))"

definition sgetn :: "'a::len word \<Rightarrow> 'a streambuf \<Rightarrow> fault + (('a word \<times> byte list) \<times> 'a streambuf)" where
  "sgetn len b =
     (let n = uio_min (sb_putpos b - sb_getpos b) len
      in case mem_read (sb_buf b) (unat (sb_getpos b)) (unat n) of
        Inl f \<Rightarrow> Inl f
      | Inr s \<Rightarrow>
          let g = sb_getpos b + n
          in Inr ((n, s), b\<lparr>sb_getpos := g, sb_dump := (g = sb_putpos b)\<rparr>))"

text \<open>The pending rewind that both writes perform first.\<close>

definition check_dump :: "'a::len streambuf \<Rightarrow> 'a streambuf" where
  "check_dump b =
     (if sb_dump b then b\<lparr>sb_putpos := 0, sb_getpos := 0, sb_dump := False\<rparr> else b)"

definition sputc :: "byte \<Rightarrow> 'a::len streambuf \<Rightarrow> fault + ('a word \<times> 'a streambuf)" where
  "sputc c b0 =
     (let b = check_dump b0
      in if sb_capacity b - sb_putpos b \<le> 0 then Inr (0, b)
         else case mem_write (sb_buf b) (unat (sb_putpos b)) [c] of
           Inl f \<Rightarrow> Inl f
         | Inr m \<Rightarrow> Inr (1, b\<lparr>sb_buf := m, sb_putpos := sb_putpos b + 1\<rparr>))"

definition sputn :: "byte list \<Rightarrow> 'a::len word \<Rightarrow> 'a streambuf \<Rightarrow> fault + ('a word \<times> 'a streambuf)" where
  "sputn s len b0 =
     (let b = check_dump b0;
          n = uio_min (sb_capacity b - sb_putpos b) len
      in case memcpy_in (sb_buf b) (unat (sb_putpos b)) s (unat n) of
           Inl f \<Rightarrow> Inl f
         | Inr m \<Rightarrow> Inr (n, b\<lparr>sb_buf := m, sb_putpos := sb_putpos b + n\<rparr>))"

definition purge :: "'a::len streambuf \<Rightarrow> 'a word \<times> 'a streambuf" where
  "purge b =
     (let n = sb_putpos b - sb_getpos b
      in (n, b\<lparr>sb_getpos := 0, sb_putpos := 0,
               sb_error := (streamerr_clear (sb_error b))\<lparr>uninitialized := (sb_buf b = None)\<rparr>\<rparr>))"

definition setbuf :: "byte list option \<Rightarrow> 'a::len word \<Rightarrow> 'a streambuf \<Rightarrow> 'a streambuf" where
  "setbuf buf capacity b =
     b\<lparr>sb_buf := buf, sb_capacity := capacity, sb_getpos := 0, sb_putpos := 0,
       sb_dump := False,
       sb_error := (sb_error b)\<lparr>uninitialized := (buf = None)\<rparr>\<rparr>"

text \<open>\<^verbatim>\<open>dump\<close> returns the storage pointer; \<^verbatim>\<open>size\<close> is the write cursor.\<close>

definition dump :: "'a::len streambuf \<Rightarrow> byte list option \<times> 'a streambuf" where
  "dump b = (sb_buf b, b\<lparr>sb_dump := True\<rparr>)"

definition size_sb :: "'a::len streambuf \<Rightarrow> 'a word" where
  "size_sb b = sb_putpos b"

text \<open>
  The public operations of \<^verbatim>\<open>streambuf\<close> as calls, and a client that makes a sequence
  of them on one buffer.  A fault ends the run.
\<close>

datatype 'w call =
    SGetc
  | SGetn 'w
  | SPutc byte
  | SPutn "byte list" 'w
  | Purge
  | Setbuf "byte list option" 'w
  | Dump

fun step :: "'a::len word call \<Rightarrow> 'a streambuf \<Rightarrow> fault + 'a streambuf" where
  "step SGetc b = map_sum id snd (sgetc b)"
| "step (SGetn len) b = map_sum id snd (sgetn len b)"
| "step (SPutc c) b = map_sum id snd (sputc c b)"
| "step (SPutn s len) b = map_sum id snd (sputn s len b)"
| "step Purge b = Inr (snd (purge b))"
| "step (Setbuf buf capacity) b = Inr (setbuf buf capacity b)"
| "step Dump b = Inr (snd (dump b))"

fun run :: "'a::len word call list \<Rightarrow> 'a streambuf \<Rightarrow> fault + 'a streambuf" where
  "run [] b = Inr b"
| "run (x # xs) b = (case step x b of Inl f \<Rightarrow> Inl f | Inr b' \<Rightarrow> run xs b')"

subsection \<open>istream and ostream (\<^verbatim>\<open>uio.hpp\<close>, \<^verbatim>\<open>part_000\<close>)\<close>

record (overloaded) ('a::len) istream =
  ibuf :: "'a streambuf"
  ierror :: streamerr

record (overloaded) ('a::len) ostream =
  obuf :: "'a streambuf"
  oerror :: streamerr






text \<open>\<^verbatim>\<open>ostream::write(const char* s, size_t n)\<close>\<close>

definition ostream_write :: "byte list \<Rightarrow> 'a::len word \<Rightarrow> 'a ostream \<Rightarrow> fault + 'a ostream" where
  "ostream_write s n os =
     (case sputn s n (obuf os) of
        Inl f \<Rightarrow> Inl f
      | Inr (r, b) \<Rightarrow>
          if n = r then Inr (os\<lparr>obuf := b\<rparr>)
          else Inr (os\<lparr>obuf := b,
                      oerror := streamerr_or ((oerror os)\<lparr>overflow := True\<rparr>) (sb_error b)\<rparr>))"

subsection \<open>streambuf of the revision \<^verbatim>\<open>part_001\<close>\<close>

record streamerr1 =
  uninitialized1 :: bool
  overflow1 :: bool

definition streamerr1_init :: streamerr1 where
  "streamerr1_init = \<lparr>uninitialized1 = False, overflow1 = False\<rparr>"

definition streamerr1_clear :: "streamerr1 \<Rightarrow> streamerr1" where
  "streamerr1_clear e = \<lparr>uninitialized1 = False, overflow1 = False\<rparr>"

record (overloaded) ('a::len) streambuf1 =
  sb1_capacity :: "'a word"
  sb1_getpos :: "'a word"
  sb1_putpos :: "'a word"
  sb1_buf :: "byte list option"
  sb1_error :: streamerr1

text \<open>The constructor leaves \<^verbatim>\<open>_error\<close> as its own constructor made it.\<close>

definition streambuf1_init :: "'a::len streambuf1" where
  "streambuf1_init =
     \<lparr>sb1_capacity = 0, sb1_getpos = 0, sb1_putpos = 0, sb1_buf = None,
      sb1_error = streamerr1_init\<rparr>"

definition in_avail1 :: "'a::len streambuf1 \<Rightarrow> 'a word" where
  "in_avail1 b = sb1_putpos b - sb1_getpos b"

definition set_uninitialized1 :: "'a::len streambuf1 \<Rightarrow> 'a streambuf1" where
  "set_uninitialized1 b = b\<lparr>sb1_error := (sb1_error b)\<lparr>uninitialized1 := True\<rparr>\<rparr>"

definition getc :: "'a::len streambuf1 \<Rightarrow> fault + (('a word \<times> byte list) \<times> 'a streambuf1)" where
  "getc b =
     (if sb1_buf b = None then Inr ((0, []), set_uninitialized1 b)
      else if sb1_putpos b - sb1_getpos b \<le> 0 then Inr ((0, []), b)
      else case mem_read (sb1_buf b) (unat (sb1_getpos b)) 1 of
        Inl f \<Rightarrow> Inl f
      | Inr c \<Rightarrow> Inr ((1, c), b\<lparr>sb1_getpos := sb1_getpos b + 1\<rparr>))"

definition getn :: "'a::len word \<Rightarrow> 'a streambuf1 \<Rightarrow> fault + (('a word \<times> byte list) \<times> 'a streambuf1)" where
  "getn len b =
     (if sb1_buf b = None then Inr ((0, []), set_uninitialized1 b)
      else
        let n = uio_min (sb1_putpos b - sb1_getpos b) len
        in case mem_read (sb1_buf b) (unat (sb1_getpos b)) (unat n) of
          Inl f \<Rightarrow> Inl f
        | Inr s \<Rightarrow> Inr ((n, s), b\<lparr>sb1_getpos := sb1_getpos b + n\<rparr>))"

definition putbyte :: "byte \<Rightarrow> 'a::len streambuf1 \<Rightarrow> fault + ('a word \<times> 'a streambuf1)" where
  "putbyte c b =
     (if sb1_buf b = None then Inr (0, set_uninitialized1 b)
      else if sb1_capacity b - sb1_putpos b \<le> 0 then Inr (0, b)
      else case mem_write (sb1_buf b) (unat (sb1_putpos b)) [c] of
        Inl f \<Rightarrow> Inl f
      | Inr m \<Rightarrow> Inr (1, b\<lparr>sb1_buf := m, sb1_putpos := sb1_putpos b + 1\<rparr>))"

definition putn :: "byte list \<Rightarrow> 'a::len word \<Rightarrow> 'a streambuf1 \<Rightarrow> fault + ('a word \<times> 'a streambuf1)" where
  "putn s len b =
     (if sb1_buf b = None then Inr (0, set_uninitialized1 b)
      else
        let n = uio_min (sb1_capacity b - sb1_putpos b) len
        in case memcpy_in (sb1_buf b) (unat (sb1_putpos b)) s (unat n) of
          Inl f \<Rightarrow> Inl f
        | Inr m \<Rightarrow> Inr (n, b\<lparr>sb1_buf := m, sb1_putpos := sb1_putpos b + n\<rparr>))"

definition streambuf_clear :: "'a::len streambuf1 \<Rightarrow> 'a word \<times> 'a streambuf1" where
  "streambuf_clear b =
     (let n = sb1_putpos b - sb1_getpos b
      in (n, b\<lparr>sb1_getpos := 0, sb1_putpos := 0, sb1_error := streamerr1_clear (sb1_error b)\<rparr>))"

definition setbuf1 :: "byte list option \<Rightarrow> 'a::len word \<Rightarrow> 'a streambuf1 \<Rightarrow> 'a streambuf1" where
  "setbuf1 buf capacity b =
     b\<lparr>sb1_buf := buf, sb1_capacity := capacity, sb1_getpos := 0, sb1_putpos := 0\<rparr>"

subsection \<open>The invariant of \<^verbatim>\<open>streambuf\<close>\<close>

text \<open>
  What every sequence of calls keeps: the cursors are ordered and inside the capacity; an
  empty queue away from position zero has its rewind pending; the flag
  \<open>uninitialized\<close> says whether storage is missing; and the bytes up to the write
  cursor lie inside the storage.
\<close>

definition sb_inv :: "'a::len streambuf \<Rightarrow> bool" where
  "sb_inv b \<longleftrightarrow>
     sb_getpos b \<le> sb_putpos b \<and> sb_putpos b \<le> sb_capacity b \<and>
     (sb_getpos b = sb_putpos b \<longrightarrow> sb_putpos b = 0 \<or> sb_dump b) \<and>
     uninitialized (sb_error b) = (sb_buf b = None) \<and>
     (case sb_buf b of None \<Rightarrow> sb_putpos b = 0 | Some m \<Rightarrow> unat (sb_putpos b) \<le> length m)"

section \<open>Properties\<close>

subsection \<open>Words and memory\<close>

lemma uio_min_le1: "uio_min a b \<le> a"
  by (auto simp add: uio_min_def)

lemma uio_min_le2: "uio_min a b \<le> b"
  by (auto simp add: uio_min_def)

lemma word_add_le_of_le_diff:
  fixes g p n :: "'a::len word"
  assumes "g \<le> p" "n \<le> p - g"
  shows "g + n \<le> p" "g \<le> g + n" "unat (g + n) = unat g + unat n"
  using assms by unat_arith+

lemma sb_inv_init: "sb_inv streambuf_init"
  by (simp add: sb_inv_def streambuf_init_def streamerr_init_def)

lemma sb_inv_setbuf: "sb_inv (setbuf p c b)"
  by (simp add: sb_inv_def setbuf_def split: option.splits)

lemma sb_inv_purge: "sb_inv b \<Longrightarrow> sb_inv (snd (purge b))"
  by (simp add: sb_inv_def purge_def Let_def split: option.splits)

lemma sb_inv_dump: "sb_inv b \<Longrightarrow> sb_inv (snd (dump b))"
  by (auto simp add: sb_inv_def dump_def split: option.splits)

lemma sb_inv_check_dump: "sb_inv b \<Longrightarrow> sb_inv (check_dump b)"
  by (auto simp add: sb_inv_def check_dump_def split: option.splits)

lemma word_inc_le:
  fixes g p :: "'a::len word"
  assumes "g \<le> p" "g \<noteq> p"
  shows "g + 1 \<le> p"
  using assms by (simp add: inc_le)

lemma sb_inv_sgetc:
  assumes "sb_inv b" "sgetc b = Inr (r, b')"
  shows "sb_inv b'"
proof (cases "sb_putpos b - sb_getpos b \<le> 0")
  case True
  with assms show ?thesis by (simp add: sgetc_def)
next
  case False
  then have ne: "sb_getpos b \<noteq> sb_putpos b" by auto
  with assms(1) have le: "sb_getpos b + 1 \<le> sb_putpos b"
    by (auto simp add: sb_inv_def intro: word_inc_le)
  from False assms(2) obtain c where
    b': "b' = b\<lparr>sb_getpos := sb_getpos b + 1, sb_dump := (sb_getpos b + 1 = sb_putpos b)\<rparr>"
    by (auto simp: sgetc_def Let_def split: sum.splits)
  from assms(1) le ne show ?thesis
    unfolding b' sb_inv_def by (auto split: option.splits)
qed

lemma sb_inv_sgetn:
  assumes "sb_inv b" "sgetn len b = Inr (r, b')"
  shows "sb_inv b'"
proof -
  define n where "n = uio_min (sb_putpos b - sb_getpos b) len"
  from assms(2) have
    b': "b' = b\<lparr>sb_getpos := sb_getpos b + n, sb_dump := (sb_getpos b + n = sb_putpos b)\<rparr>"
    by (auto simp: sgetn_def Let_def n_def split: sum.splits)
  have "n \<le> sb_putpos b - sb_getpos b" by (simp add: n_def uio_min_le1)
  with assms(1) have le: "sb_getpos b + n \<le> sb_putpos b"
    by (simp add: sb_inv_def word_add_le_of_le_diff)
  from assms(1) le show ?thesis
    unfolding b' sb_inv_def by (auto split: option.splits)
qed

lemma mem_write_Inr:
  assumes "mem_write p off src = Inr q"
  shows "src = [] \<and> q = p \<or>
         (\<exists>m. p = Some m \<and> off + length src \<le> length m \<and>
              q = Some (take off m @ src @ drop (off + length src) m))"
  using assms by (auto simp: mem_write_def split: if_splits option.splits)

lemma memcpy_in_Inr:
  assumes "memcpy_in p off s n = Inr q"
  shows "n \<le> length s \<and>
         (n = 0 \<and> q = p \<or>
          (\<exists>m. p = Some m \<and> off + n \<le> length m \<and>
               q = Some (take off m @ take n s @ drop (off + n) m)))"
  using assms by (auto simp: memcpy_in_def min_def dest!: mem_write_Inr split: if_splits)

lemma sb_inv_write:
  fixes b :: "'a::len streambuf"
  assumes inv: "sb_inv b" and n: "n \<le> sb_capacity b - sb_putpos b"
    and q: "n = 0 \<and> q = sb_buf b \<or>
         (\<exists>m. sb_buf b = Some m \<and> unat (sb_putpos b) + unat n \<le> length m \<and>
              q = Some (take (unat (sb_putpos b)) m @ src @ drop (unat (sb_putpos b) + unat n) m)
              \<and> length src = unat n)"
  shows "sb_inv (b\<lparr>sb_buf := q, sb_putpos := sb_putpos b + n\<rparr>)"
proof (cases "n = 0")
  case True
  with q have "q = sb_buf b" by auto
  with True inv show ?thesis by (simp add: sb_inv_def)
next
  case False
  with q obtain m where m: "sb_buf b = Some m" "unat (sb_putpos b) + unat n \<le> length m"
    "q = Some (take (unat (sb_putpos b)) m @ src @ drop (unat (sb_putpos b) + unat n) m)"
    "length src = unat n"
    by auto
  from inv have le: "sb_getpos b \<le> sb_putpos b" "sb_putpos b \<le> sb_capacity b"
    by (simp_all add: sb_inv_def)
  from le(2) n have 1: "sb_putpos b + n \<le> sb_capacity b" "sb_putpos b \<le> sb_putpos b + n"
    "unat (sb_putpos b + n) = unat (sb_putpos b) + unat n"
    by (rule word_add_le_of_le_diff)+
  from 1(2,3) False have 2: "sb_putpos b < sb_putpos b + n"
    by (metis add.right_neutral less_le unat_eq_zero word_unat_eq_iff add_left_cancel)
  from le(1) 2 have 3: "sb_getpos b \<noteq> sb_putpos b + n" "sb_getpos b \<le> sb_putpos b + n"
    by auto
  from inv m have un: "\<not> uninitialized (sb_error b)" by (simp add: sb_inv_def)
  show ?thesis
    using 1 3 un m by (simp add: sb_inv_def)
qed

lemma word_room_ge_1:
  fixes c p :: "'a::len word"
  assumes "\<not> c - p \<le> 0"
  shows "1 \<le> c - p"
  using assms by unat_arith

lemma sb_inv_sputc:
  assumes "sb_inv b0" "sputc c b0 = Inr (r, b')"
  shows "sb_inv b'"
proof -
  define b where "b = check_dump b0"
  from assms(1) have inv: "sb_inv b" by (simp add: b_def sb_inv_check_dump)
  show ?thesis
  proof (cases "sb_capacity b - sb_putpos b \<le> 0")
    case True
    with assms(2) inv show ?thesis by (simp add: sputc_def b_def [symmetric])
  next
    case False
    with assms(2) obtain q where q: "mem_write (sb_buf b) (unat (sb_putpos b)) [c] = Inr q"
      and b': "b' = b\<lparr>sb_buf := q, sb_putpos := sb_putpos b + 1\<rparr>"
      by (auto simp: sputc_def b_def [symmetric] split: sum.splits)
    from False have "1 \<le> sb_capacity b - sb_putpos b" by (rule word_room_ge_1)
    moreover from mem_write_Inr [OF q]
    have "(1::'a word) = 0 \<and> q = sb_buf b \<or>
         (\<exists>m. sb_buf b = Some m \<and> unat (sb_putpos b) + unat (1::'a word) \<le> length m \<and>
              q = Some (take (unat (sb_putpos b)) m @ [c] @ drop (unat (sb_putpos b) + unat (1::'a word)) m)
              \<and> length [c] = unat (1::'a word))"
      by auto
    ultimately show ?thesis unfolding b' using inv by (intro sb_inv_write)
  qed
qed

lemma sb_inv_sputn:
  assumes "sb_inv b0" "sputn s len b0 = Inr (r, b')"
  shows "sb_inv b'"
proof -
  define b where "b = check_dump b0"
  define n where "n = uio_min (sb_capacity b - sb_putpos b) len"
  from assms(1) have inv: "sb_inv b" by (simp add: b_def sb_inv_check_dump)
  from assms(2) obtain q where q: "memcpy_in (sb_buf b) (unat (sb_putpos b)) s (unat n) = Inr q"
    and b': "b' = b\<lparr>sb_buf := q, sb_putpos := sb_putpos b + n\<rparr>"
    by (auto simp: sputn_def Let_def b_def [symmetric] n_def [symmetric] split: sum.splits)
  have "n \<le> sb_capacity b - sb_putpos b" by (simp add: n_def uio_min_le1)
  moreover from memcpy_in_Inr [OF q]
  have "n = 0 \<and> q = sb_buf b \<or>
         (\<exists>m. sb_buf b = Some m \<and> unat (sb_putpos b) + unat n \<le> length m \<and>
              q = Some (take (unat (sb_putpos b)) m @ take (unat n) s @ drop (unat (sb_putpos b) + unat n) m)
              \<and> length (take (unat n) s) = unat n)"
    by (auto simp: unat_eq_zero)
  ultimately show ?thesis unfolding b' using inv by (intro sb_inv_write)
qed

lemma sb_inv_step:
  assumes "sb_inv b" "step x b = Inr b'"
  shows "sb_inv b'"
proof (cases x)
  case SGetc
  with assms show ?thesis by (cases "sgetc b") (auto dest: sb_inv_sgetc)
next
  case (SGetn len)
  with assms show ?thesis by (cases "sgetn len b") (auto dest: sb_inv_sgetn)
next
  case (SPutc c)
  with assms show ?thesis by (cases "sputc c b") (auto dest: sb_inv_sputc)
next
  case (SPutn s len)
  with assms show ?thesis by (cases "sputn s len b") (auto dest: sb_inv_sputn)
next
  case Purge
  with assms show ?thesis by (auto dest: sb_inv_purge)
next
  case (Setbuf p c)
  with assms show ?thesis by (auto simp: sb_inv_setbuf)
next
  case Dump
  with assms show ?thesis by (auto dest: sb_inv_dump)
qed

lemma sb_inv_run:
  assumes "sb_inv b" "run xs b = Inr b'"
  shows "sb_inv b'"
  using assms
proof (induction xs arbitrary: b)
  case Nil
  then show ?case by simp
next
  case (Cons x xs)
  then show ?case by (auto split: sum.splits dest: sb_inv_step)
qed

lemma sb_inv_reachable: "run xs streambuf_init = Inr b \<Longrightarrow> sb_inv b"
  using sb_inv_init by (rule sb_inv_run)

lemmas call_defs =
  sputn_def sputc_def sgetn_def sgetc_def check_dump_def dump_def purge_def setbuf_def
  streambuf_init_def streamerr_init_def streamerr_clear_def uio_min_def memcpy_in_def
  mem_write_def mem_read_def Let_def

subsection \<open>Cursor ordering\<close>

text \<open>
  C3.  Start from a freshly constructed buffer, or from one that \<^verbatim>\<open>setbuf\<close> has just
  bound (whatever it was before), and make any sequence of calls of \<^verbatim>\<open>sgetc\<close>,
  \<^verbatim>\<open>sgetn\<close>, \<^verbatim>\<open>sputc\<close>, \<^verbatim>\<open>sputn\<close>, \<^verbatim>\<open>purge\<close>, \<^verbatim>\<open>setbuf\<close> and \<^verbatim>\<open>dump\<close>
  that does not fault.  In the state reached,
  \<open>0 \<le> _getpos \<le> _putpos \<le> _capacity\<close>.
\<close>

theorem cursor_order_invariant:
  assumes "run xs streambuf_init = Inr b \<or> run xs (setbuf buf capacity b0) = Inr b"
  shows "0 \<le> sb_getpos b \<and> sb_getpos b \<le> sb_putpos b \<and> sb_putpos b \<le> sb_capacity b"
proof -
  from assms have "sb_inv b"
    using sb_inv_init sb_inv_setbuf by (auto intro: sb_inv_run)
  then show ?thesis by (simp add: sb_inv_def)
qed

theorem cursor_order_invariant_witness:
  "run [Setbuf (Some [0, 0, 0, 0]) 4, SPutn [65, 66] 2, SGetn 1, SPutn [67, 68, 69] 3, SGetc,
        Dump, SPutc 70] (streambuf_init :: 32 streambuf)
     = Inr \<lparr>sb_capacity = 4, sb_getpos = 0, sb_putpos = 1, sb_dump = False,
            sb_buf = Some [70, 66, 67, 68],
            sb_error = \<lparr>uninitialized = False, overflow = False, reserved = 0\<rparr>\<rparr>
   \<and> (0 :: 32 word) \<le> 0 \<and> (0 :: 32 word) \<le> 1 \<and> (1 :: 32 word) \<le> 4"
proof -
  have h: "run [Setbuf (Some [0, 0, 0, 0]) 4, SPutn [65, 66] 2, SGetn 1, SPutn [67, 68, 69] 3,
        SGetc, Dump, SPutc 70] (streambuf_init :: 32 streambuf)
     = Inr \<lparr>sb_capacity = 4, sb_getpos = 0, sb_putpos = 1, sb_dump = False,
            sb_buf = Some [70, 66, 67, 68],
            sb_error = \<lparr>uninitialized = False, overflow = False, reserved = 0\<rparr>\<rparr>"
    by (simp add: call_defs)
  from cursor_order_invariant [OF disjI1, OF h] h show ?thesis by simp
qed

subsection \<open>A write of length zero\<close>

lemma sputn_zero_dump:
  "sb_dump b \<Longrightarrow> sputn s 0 b = Inr (0, b\<lparr>sb_putpos := 0, sb_getpos := 0, sb_dump := False\<rparr>)"
  by (simp add: sputn_def check_dump_def uio_min_def memcpy_in_def mem_write_def)

lemma sgetn_drain_dump:
  "sgetn len b0 = Inr (r, b) \<Longrightarrow> in_avail b = 0 \<Longrightarrow> sb_dump b"
  by (auto simp: sgetn_def in_avail_def Let_def split: sum.splits)

lemma sgetc_drain_dump:
  "sgetc b0 = Inr ((1, c), b) \<Longrightarrow> in_avail b = 0 \<Longrightarrow> sb_dump b"
  by (auto simp: sgetc_def in_avail_def Let_def split: sum.splits if_splits)

text \<open>
  C10.  Let \<open>b\<close> be the state after \<^verbatim>\<open>dump()\<close>, or after an \<^verbatim>\<open>sgetn\<close> or a
  successful \<^verbatim>\<open>sgetc\<close> that left the queue empty.  Then the rewind is pending
  (\<^verbatim>\<open>_dump\<close> is set), and \<^verbatim>\<open>sputn\<close> with \<open>len = 0\<close> returns 0 and sets both cursors
  to zero (clearing \<^verbatim>\<open>_dump\<close>, changing nothing else): the view that \<^verbatim>\<open>dump()\<close> gave
  and the drained region are gone after a write of no bytes.
\<close>

theorem sputn_zero_len_rewinds:
  assumes "b = snd (dump b0) \<or> (\<exists>len r. sgetn len b0 = Inr (r, b) \<and> in_avail b = 0)
             \<or> (\<exists>c. sgetc b0 = Inr ((1, c), b) \<and> in_avail b = 0)"
  shows "sb_dump b \<and> sputn s 0 b = Inr (0, b\<lparr>sb_putpos := 0, sb_getpos := 0, sb_dump := False\<rparr>)"
proof -
  from assms have "sb_dump b"
    by (auto simp: dump_def dest: sgetn_drain_dump sgetc_drain_dump)
  then show ?thesis by (simp add: sputn_zero_dump)
qed

theorem sputn_zero_len_rewinds_witness:
  "sgetn 2 \<lparr>sb_capacity = 4, sb_getpos = 0, sb_putpos = 2, sb_dump = False,
            sb_buf = Some [65, 66, 0, 0], sb_error = streamerr_init\<rparr>
     = Inr ((2 :: 32 word, [65, 66]),
            \<lparr>sb_capacity = 4, sb_getpos = 2, sb_putpos = 2, sb_dump = True,
             sb_buf = Some [65, 66, 0, 0], sb_error = streamerr_init\<rparr>)
   \<and> sputn [] 0 \<lparr>sb_capacity = 4 :: 32 word, sb_getpos = 2, sb_putpos = 2, sb_dump = True,
                  sb_buf = Some [65, 66, 0, 0], sb_error = streamerr_init\<rparr>
     = Inr (0, \<lparr>sb_capacity = 4, sb_getpos = 0, sb_putpos = 0, sb_dump = False,
                sb_buf = Some [65, 66, 0, 0], sb_error = streamerr_init\<rparr>)"
proof -
  let ?pre = "\<lparr>sb_capacity = 4 :: 32 word, sb_getpos = 0, sb_putpos = 2, sb_dump = False,
            sb_buf = Some [65, 66, 0, 0], sb_error = streamerr_init\<rparr>"
  let ?post = "\<lparr>sb_capacity = 4 :: 32 word, sb_getpos = 2, sb_putpos = 2, sb_dump = True,
            sb_buf = Some [65, 66, 0, 0], sb_error = streamerr_init\<rparr>"
  have h: "sgetn 2 ?pre = Inr ((2, [65, 66]), ?post)"
    by (simp add: call_defs)
  have a: "in_avail ?post = 0" by (simp add: in_avail_def)
  have "?post = snd (dump ?pre) \<or> (\<exists>len r. sgetn len ?pre = Inr (r, ?post) \<and> in_avail ?post = 0)
             \<or> (\<exists>c. sgetc ?pre = Inr ((1, c), ?post) \<and> in_avail ?post = 0)"
    using h a by blast
  from sputn_zero_len_rewinds [OF this, of "[]"] h show ?thesis by simp
qed

subsection \<open>Round trip\<close>

lemma uio_min_self: "uio_min a a = a"
  by (simp add: uio_min_def)

lemma uio_min_ge: "l \<le> a \<Longrightarrow> uio_min a l = l"
  by (auto simp: uio_min_def)

lemma unat_of_nat_length:
  fixes c :: "'a::len word"
  assumes "length S \<le> unat c"
  shows "unat (word_of_nat (length S) :: 'a word) = length S"
    and "(word_of_nat (length S) :: 'a word) \<le> c"
proof -
  have "length S < 2 ^ LENGTH('a)"
    using assms unsigned_less [of c, where 'a = nat] by (simp add: order_le_less_trans)
  then show 1: "unat (word_of_nat (length S) :: 'a word) = length S"
    by (simp add: unat_of_nat)
  with assms show "(word_of_nat (length S) :: 'a word) \<le> c"
    by (simp add: word_le_nat_alt)
qed

lemma memcpy_in_front:
  assumes "length S \<le> length m"
  shows "\<exists>m'. memcpy_in (Some m) 0 S (length S) = Inr (Some m') \<and> take (length S) m' = S
     \<and> length m' = length m"
  using assms by (cases "S = []") (auto simp: memcpy_in_def mem_write_def)

lemma mem_read_front:
  assumes "take n m = S" "n \<le> length m"
  shows "mem_read (Some m) 0 n = Inr S"
  using assms by (auto simp: mem_read_def)

text \<open>
  C1.  Bind storage \<open>m\<close> of capacity \<open>c\<close> (so \<open>m\<close> has at least \<open>c\<close> bytes) with
  \<^verbatim>\<open>setbuf\<close>, on a buffer in any state.  For every byte sequence \<open>S\<close> of at most
  \<open>c\<close> bytes, \<^verbatim>\<open>sputn\<close> of \<open>S\<close> returns \<open>|S|\<close>, and \<^verbatim>\<open>sgetn\<close> of \<open>|S|\<close> bytes
  then returns \<open>|S|\<close> and stores exactly \<open>S\<close>, in order.  The same holds for \<^verbatim>\<open>putn\<close>
  and \<^verbatim>\<open>getn\<close> of \<^verbatim>\<open>part_001\<close>.
\<close>

theorem round_trip:
  fixes c :: "'a::len word"
  assumes "length S \<le> unat c" and "unat c \<le> length m"
  shows "(\<exists>b1 b2.
            sputn S (word_of_nat (length S)) (setbuf (Some m) c b0)
              = Inr (word_of_nat (length S), b1) \<and>
            sgetn (word_of_nat (length S)) b1 = Inr ((word_of_nat (length S), S), b2)) \<and>
         (\<exists>b1 b2.
            putn S (word_of_nat (length S)) (setbuf1 (Some m) c b0')
              = Inr (word_of_nat (length S), b1) \<and>
            getn (word_of_nat (length S)) b1 = Inr ((word_of_nat (length S), S), b2))"
proof -
  define L :: "'a word" where "L = word_of_nat (length S)"
  from assms(1) have L: "unat L = length S" "L \<le> c"
    unfolding L_def by (rule unat_of_nat_length)+
  from assms have "length S \<le> length m" by simp
  from memcpy_in_front [OF this] obtain m' where
    m': "memcpy_in (Some m) 0 S (length S) = Inr (Some m')" "take (length S) m' = S"
      "length m' = length m"
    by blast
  from m' \<open>length S \<le> length m\<close> have rd: "mem_read (Some m') 0 (length S) = Inr S"
    by (intro mem_read_front) simp_all
  have "sputn S L (setbuf (Some m) c b0)
          = Inr (L, (setbuf (Some m) c b0)\<lparr>sb_buf := Some m', sb_putpos := L\<rparr>)"
    using L m'(1) by (simp add: sputn_def check_dump_def setbuf_def uio_min_ge)
  moreover have "sgetn L ((setbuf (Some m) c b0)\<lparr>sb_buf := Some m', sb_putpos := L\<rparr>)
          = Inr ((L, S), (setbuf (Some m) c b0)\<lparr>sb_buf := Some m', sb_putpos := L,
                    sb_getpos := L, sb_dump := True\<rparr>)"
    using L rd by (simp add: sgetn_def setbuf_def uio_min_self)
  moreover have "putn S L (setbuf1 (Some m) c b0')
          = Inr (L, (setbuf1 (Some m) c b0')\<lparr>sb1_buf := Some m', sb1_putpos := L\<rparr>)"
    using L m'(1) by (simp add: putn_def setbuf1_def uio_min_ge)
  moreover have "getn L ((setbuf1 (Some m) c b0')\<lparr>sb1_buf := Some m', sb1_putpos := L\<rparr>)
          = Inr ((L, S), (setbuf1 (Some m) c b0')\<lparr>sb1_buf := Some m', sb1_putpos := L,
                    sb1_getpos := L\<rparr>)"
    using L rd by (simp add: getn_def setbuf1_def uio_min_self)
  ultimately show ?thesis unfolding L_def [symmetric] by blast
qed

theorem round_trip_witness:
  "length [72, 105 :: byte] \<le> unat (4 :: 32 word) \<and>
   unat (4 :: 32 word) \<le> length [0, 0, 0, 0 :: byte] \<and>
   (\<exists>b1 b2.
      sputn [72, 105] 2 (setbuf (Some [0, 0, 0, 0]) (4 :: 32 word) streambuf_init) = Inr (2, b1) \<and>
      sgetn 2 b1 = Inr ((2, [72, 105]), b2)) \<and>
   (\<exists>b1 b2.
      putn [72, 105] 2 (setbuf1 (Some [0, 0, 0, 0]) (4 :: 32 word) streambuf1_init) = Inr (2, b1) \<and>
      getn 2 b1 = Inr ((2, [72, 105]), b2))"
proof -
  have h1: "length [72, 105 :: byte] \<le> unat (4 :: 32 word)" by simp
  have h2: "unat (4 :: 32 word) \<le> length [0, 0, 0, 0 :: byte]" by simp
  from round_trip [OF h1 h2, of streambuf_init streambuf1_init] show ?thesis by simp
qed

subsection \<open>Lazy rewind\<close>

lemma check_dump_frame:
  "sb_buf (check_dump b) = sb_buf b" "sb_capacity (check_dump b) = sb_capacity b"
  "sb_error (check_dump b) = sb_error b" "\<not> sb_dump (check_dump b)"
  by (simp_all add: check_dump_def)

lemma check_dump_drained:
  assumes "sb_inv b" "in_avail b = 0"
  shows "sb_putpos (check_dump b) = 0" "sb_getpos (check_dump b) = 0"
  using assms by (auto simp: sb_inv_def in_avail_def check_dump_def)

lemma read_frame:
  assumes "rd = SGetc \<or> rd = SGetn k" "step rd b0 = Inr b1"
  shows "sb_buf b1 = sb_buf b0" "sb_capacity b1 = sb_capacity b0" "sb_putpos b1 = sb_putpos b0"
    "sb_error b1 = sb_error b0"
  using assms
  by (auto simp: sgetc_def sgetn_def Let_def split: if_splits sum.splits)

lemma unat_uio_min_le:
  "unat (uio_min a l) \<le> unat a" "unat (uio_min a l) \<le> unat l"
  by (simp_all add: word_le_nat_alt [symmetric] uio_min_le1 uio_min_le2)

lemma mem_write_front:
  assumes "length src \<le> length m"
  shows "\<exists>q. mem_write (Some m) 0 src = Inr (Some q) \<and> length q = length m \<and>
           take (length src) q = src"
  using assms by (auto simp: mem_write_def)

lemma sputn_from_zero:
  assumes z: "sb_putpos (check_dump b) = 0" "sb_getpos (check_dump b) = 0"
    and m: "sb_buf b = Some m" "unat (sb_capacity b) \<le> length m"
    and s: "unat len \<le> length s"
  shows "\<exists>b2. sputn s len b = Inr (uio_min (sb_capacity b) len, b2) \<and>
           sb_getpos b2 = 0 \<and> sb_putpos b2 = uio_min (sb_capacity b) len \<and>
           in_avail b2 = uio_min (sb_capacity b) len"
proof -
  define n where "n = uio_min (sb_capacity b) len"
  have n: "unat n \<le> unat (sb_capacity b)" "unat n \<le> unat len"
    unfolding n_def by (rule unat_uio_min_le)+
  with m s have "length (take (unat n) s) \<le> length m" by simp
  from mem_write_front [OF this] obtain q where
    "mem_write (Some m) 0 (take (unat n) s) = Inr (Some q)" by blast
  with n s have "memcpy_in (Some m) 0 s (unat n) = Inr (Some q)"
    by (simp add: memcpy_in_def)
  with z m show ?thesis
    by (simp add: sputn_def Let_def check_dump_frame n_def [symmetric] in_avail_def)
qed

lemma sputc_from_zero:
  assumes z: "sb_putpos (check_dump b) = 0" "sb_getpos (check_dump b) = 0"
    and m: "sb_buf b = Some m" "unat (sb_capacity b) \<le> length m"
    and c: "sb_capacity b \<noteq> 0"
  shows "\<exists>b2. sputc c b = Inr (1, b2) \<and> sb_getpos b2 = 0 \<and> sb_putpos b2 = 1 \<and> in_avail b2 = 1"
proof -
  from c have "0 < unat (sb_capacity b)" by (simp add: unat_gt_0)
  with m have "length [c] \<le> length m" by simp
  from mem_write_front [OF this] obtain q where
    "mem_write (Some m) 0 [c] = Inr (Some q)" by blast
  with z m c show ?thesis
    by (simp add: sputc_def Let_def check_dump_frame in_avail_def)
qed

text \<open>
  C2.  Take a bound buffer \<open>b0\<close> reached by any sequence of calls (its storage holds at
  least \<^verbatim>\<open>_capacity\<close> bytes), and a read (\<^verbatim>\<open>sgetc\<close> or \<^verbatim>\<open>sgetn\<close>) after which
  \<^verbatim>\<open>in_avail()\<close> is 0.  The read does not rewind: both cursors stand at the old write
  cursor.  The next \<^verbatim>\<open>sputn\<close> of \<open>len\<close> bytes rewinds first: it returns
  \<open>min(_capacity, len)\<close>, so up to the full capacity, with the read cursor at 0 and
  the write cursor at the count.  The next \<^verbatim>\<open>sputc\<close> likewise returns 1 when the
  capacity is not zero.
\<close>

theorem lazy_rewind:
  assumes reach: "run xs streambuf_init = Inr b0"
    and bound: "sb_buf b0 = Some m" "unat (sb_capacity b0) \<le> length m"
    and rd: "rd = SGetc \<or> rd = SGetn k" "step rd b0 = Inr b1"
    and drained: "in_avail b1 = 0"
    and src: "unat len \<le> length s"
  shows "sb_getpos b1 = sb_putpos b0 \<and> sb_putpos b1 = sb_putpos b0 \<and>
         (\<exists>b2. sputn s len b1 = Inr (uio_min (sb_capacity b0) len, b2) \<and>
               sb_getpos b2 = 0 \<and> sb_putpos b2 = uio_min (sb_capacity b0) len \<and>
               in_avail b2 = uio_min (sb_capacity b0) len) \<and>
         (sb_capacity b0 \<noteq> 0 \<longrightarrow>
            (\<exists>b2. sputc c b1 = Inr (1, b2) \<and> sb_getpos b2 = 0 \<and> sb_putpos b2 = 1 \<and>
                  in_avail b2 = 1))"
proof -
  from reach have "sb_inv b0" by (rule sb_inv_reachable)
  then have inv: "sb_inv b1" using rd(2) by (rule sb_inv_step)
  note fr = read_frame [OF rd]
  from drained have "sb_getpos b1 = sb_putpos b1" by (simp add: in_avail_def)
  with fr have cur: "sb_getpos b1 = sb_putpos b0 \<and> sb_putpos b1 = sb_putpos b0" by simp
  note z = check_dump_drained [OF inv drained]
  from bound fr have m: "sb_buf b1 = Some m" "unat (sb_capacity b1) \<le> length m" by simp_all
  from sputn_from_zero [OF z m src] sputc_from_zero [OF z m] cur fr(2)
  show ?thesis by simp
qed

theorem lazy_rewind_witness:
  "run [Setbuf (Some [0, 0, 0, 0]) 4, SPutn [65, 66, 67, 68] 4] (streambuf_init :: 32 streambuf)
     = Inr \<lparr>sb_capacity = 4, sb_getpos = 0, sb_putpos = 4, sb_dump = False,
            sb_buf = Some [65, 66, 67, 68], sb_error = streamerr_init\<rparr> \<and>
   step (SGetn 4) \<lparr>sb_capacity = 4 :: 32 word, sb_getpos = 0, sb_putpos = 4, sb_dump = False,
            sb_buf = Some [65, 66, 67, 68], sb_error = streamerr_init\<rparr>
     = Inr \<lparr>sb_capacity = 4, sb_getpos = 4, sb_putpos = 4, sb_dump = True,
            sb_buf = Some [65, 66, 67, 68], sb_error = streamerr_init\<rparr> \<and>
   (\<exists>b2. sputn [69, 70, 71, 72, 73] 5
            \<lparr>sb_capacity = 4 :: 32 word, sb_getpos = 4, sb_putpos = 4, sb_dump = True,
             sb_buf = Some [65, 66, 67, 68], sb_error = streamerr_init\<rparr> = Inr (4, b2) \<and>
         sb_getpos b2 = 0 \<and> sb_putpos b2 = 4 \<and> in_avail b2 = 4) \<and>
   (\<exists>b2. sputc 74
            \<lparr>sb_capacity = 4 :: 32 word, sb_getpos = 4, sb_putpos = 4, sb_dump = True,
             sb_buf = Some [65, 66, 67, 68], sb_error = streamerr_init\<rparr> = Inr (1, b2) \<and>
         sb_getpos b2 = 0 \<and> sb_putpos b2 = 1 \<and> in_avail b2 = 1)"
proof -
  let ?pre = "\<lparr>sb_capacity = 4 :: 32 word, sb_getpos = 0, sb_putpos = 4, sb_dump = False,
            sb_buf = Some [65, 66, 67, 68], sb_error = streamerr_init\<rparr>"
  let ?post = "\<lparr>sb_capacity = 4 :: 32 word, sb_getpos = 4, sb_putpos = 4, sb_dump = True,
            sb_buf = Some [65, 66, 67, 68], sb_error = streamerr_init\<rparr>"
  have reach: "run [Setbuf (Some [0, 0, 0, 0]) 4, SPutn [65, 66, 67, 68] 4] streambuf_init = Inr ?pre"
    by (simp add: call_defs)
  have bound: "sb_buf ?pre = Some [65, 66, 67, 68]" "unat (sb_capacity ?pre) \<le> length [65, 66, 67, 68 :: byte]"
    by simp_all
  have rd: "SGetn 4 = SGetc \<or> SGetn 4 = SGetn (4 :: 32 word)" by simp
  have st: "step (SGetn 4) ?pre = Inr ?post" by (simp add: call_defs)
  have dr: "in_avail ?post = 0" by (simp add: in_avail_def)
  have src: "unat (5 :: 32 word) \<le> length [69, 70, 71, 72, 73 :: byte]" by simp
  from lazy_rewind [OF reach bound rd st dr src, of 74] reach st
  show ?thesis by (simp add: uio_min_def)
qed

subsection \<open>Writes that fit\<close>







subsection \<open>Overflow at the stream\<close>

lemma uio_min_lt: "a < l \<Longrightarrow> uio_min a l = a"
  by (simp add: uio_min_def)

lemma sputn_fresh:
  fixes c :: "'a::len word"
  assumes m: "unat c \<le> length m" and s: "unat len \<le> length s"
  shows "\<exists>q. sputn s len (setbuf (Some m) c b0)
            = Inr (uio_min c len,
                   (setbuf (Some m) c b0)\<lparr>sb_buf := Some q, sb_putpos := uio_min c len\<rparr>) \<and>
            take (unat (uio_min c len)) q = take (unat (uio_min c len)) s"
proof -
  define n where "n = uio_min c len"
  have n: "unat n \<le> unat c" "unat n \<le> unat len"
    unfolding n_def by (rule unat_uio_min_le)+
  with s have ns: "unat n \<le> length s" by simp
  with m n have "length (take (unat n) s) \<le> length m" by simp
  from mem_write_front [OF this] ns obtain q where
    q: "mem_write (Some m) 0 (take (unat n) s) = Inr (Some q)"
       "take (unat n) q = take (unat n) s"
    by auto
  with ns have "memcpy_in (Some m) 0 s (unat n) = Inr (Some q)"
    by (simp add: memcpy_in_def)
  then have "sputn s len (setbuf (Some m) c b0)
      = Inr (n, (setbuf (Some m) c b0)\<lparr>sb_buf := Some q, sb_putpos := n\<rparr>)"
    by (simp add: sputn_def check_dump_def setbuf_def n_def [symmetric])
  with q(2) show ?thesis unfolding n_def [symmetric] by blast
qed

text \<open>
  C8.  An output stream whose buffer has just been bound to storage of capacity \<open>c\<close>
  writes \<open>n = c + 1\<close> bytes with \<^verbatim>\<open>ostream::write\<close> (the count \<open>c + 1\<close> is a
  \<^verbatim>\<open>size_t\<close>, and the source holds that many bytes).  The \<^verbatim>\<open>sputn\<close> it forwards to
  returns exactly \<open>c\<close>; the buffer then holds the first \<open>c\<close> bytes of the source and
  \<^verbatim>\<open>in_avail()\<close> is \<open>c\<close>; and the stream's \<^verbatim>\<open>_oerror\<close> has \<open>overflow\<close> set.
\<close>

theorem write_overflow:
  fixes c :: "'a::len word"
  assumes fresh: "obuf os = setbuf (Some m) c b0"
    and m: "unat c \<le> length m"
    and n: "unat n = unat c + 1"
    and s: "unat n \<le> length s"
  shows "\<exists>b q os'.
           sputn s n (obuf os) = Inr (c, b) \<and>
           sb_buf b = Some q \<and> take (unat c) q = take (unat c) s \<and> in_avail b = c \<and>
           ostream_write s n os = Inr os' \<and> obuf os' = b \<and> overflow (oerror os')"
proof -
  from n have lt: "c < n" by (simp add: word_less_nat_alt)
  then have min: "uio_min c n = c" by (rule uio_min_lt)
  from sputn_fresh [OF m s, of b0] obtain q where
    q: "sputn s n (obuf os)
          = Inr (c, (setbuf (Some m) c b0)\<lparr>sb_buf := Some q, sb_putpos := c\<rparr>)"
       "take (unat c) q = take (unat c) s"
    unfolding min fresh by blast
  let ?b = "(setbuf (Some m) c b0)\<lparr>sb_buf := Some q, sb_putpos := c\<rparr>"
  from lt have "n \<noteq> c" by auto
  with q(1) have "ostream_write s n os
      = Inr (os\<lparr>obuf := ?b,
                 oerror := streamerr_or ((oerror os)\<lparr>overflow := True\<rparr>) (sb_error ?b)\<rparr>)"
    by (simp add: ostream_write_def)
  moreover have "in_avail ?b = c" by (simp add: in_avail_def setbuf_def)
  ultimately show ?thesis using q by (simp add: streamerr_or_def)
qed

theorem write_overflow_witness:
  "unat (2 :: 32 word) \<le> length [0, 0 :: byte] \<and> unat (3 :: 32 word) = unat (2 :: 32 word) + 1 \<and>
   unat (3 :: 32 word) \<le> length [65, 66, 67 :: byte] \<and>
   (\<exists>b q os'.
      sputn [65, 66, 67] 3 (setbuf (Some [0, 0]) (2 :: 32 word) streambuf_init) = Inr (2, b) \<and>
      sb_buf b = Some q \<and> take 2 q = [65, 66] \<and> in_avail b = 2 \<and>
      ostream_write [65, 66, 67] 3
        \<lparr>obuf = setbuf (Some [0, 0]) (2 :: 32 word) streambuf_init, oerror = streamerr_init\<rparr>
        = Inr os' \<and> obuf os' = b \<and> overflow (oerror os'))"
proof -
  let ?os = "\<lparr>obuf = setbuf (Some [0, 0]) (2 :: 32 word) streambuf_init, oerror = streamerr_init\<rparr>"
  have fresh: "obuf ?os = setbuf (Some [0, 0]) 2 streambuf_init" by simp
  have m: "unat (2 :: 32 word) \<le> length [0, 0 :: byte]" by simp
  have n: "unat (3 :: 32 word) = unat (2 :: 32 word) + 1" by simp
  have s: "unat (3 :: 32 word) \<le> length [65, 66, 67 :: byte]" by simp
  from write_overflow [OF fresh m n s] show ?thesis by simp
qed

subsection \<open>Binding storage\<close>

text \<open>
  C4, as the code has it.  After \<^verbatim>\<open>setbuf(buf, capacity)\<close> on any buffer, both cursors
  are zero and the storage and capacity are the arguments.  In \<^verbatim>\<open>uio.hpp\<close> the rewind
  mark is cleared, \<open>uninitialized\<close> is set exactly when \<open>buf\<close> is null, and the other
  flags (\<open>overflow\<close>, \<open>reserved\<close>) keep the values they had.  In \<^verbatim>\<open>part_001\<close>
  \<^verbatim>\<open>setbuf\<close> leaves the whole error register as it was.
\<close>

theorem setbuf_semantics:
  "sb_getpos (setbuf buf capacity b) = 0 \<and> sb_putpos (setbuf buf capacity b) = 0 \<and>
   \<not> sb_dump (setbuf buf capacity b) \<and>
   sb_buf (setbuf buf capacity b) = buf \<and> sb_capacity (setbuf buf capacity b) = capacity \<and>
   uninitialized (sb_error (setbuf buf capacity b)) = (buf = None) \<and>
   overflow (sb_error (setbuf buf capacity b)) = overflow (sb_error b) \<and>
   reserved (sb_error (setbuf buf capacity b)) = reserved (sb_error b) \<and>
   sb1_getpos (setbuf1 buf capacity b1) = 0 \<and> sb1_putpos (setbuf1 buf capacity b1) = 0 \<and>
   sb1_buf (setbuf1 buf capacity b1) = buf \<and> sb1_capacity (setbuf1 buf capacity b1) = capacity \<and>
   sb1_error (setbuf1 buf capacity b1) = sb1_error b1"
  by (simp add: setbuf_def setbuf1_def)

text \<open>
  C4 as stated fails twice: in \<^verbatim>\<open>uio.hpp\<close> a buffer whose register has \<open>overflow\<close>
  set still has it set after \<^verbatim>\<open>setbuf\<close>; in \<^verbatim>\<open>part_001\<close> binding null storage to
  a fresh buffer leaves \<open>uninitialized\<close> clear.
\<close>

theorem setbuf_flags_counterexample:
  "overflow (sb_error (setbuf (Some [0]) (1 :: 32 word)
      (streambuf_init\<lparr>sb_error := \<lparr>uninitialized = True, overflow = True, reserved = 0\<rparr>\<rparr>))) \<and>
   sb1_buf (setbuf1 None (0 :: 32 word) streambuf1_init) = None \<and>
   \<not> uninitialized1 (sb1_error (setbuf1 None (0 :: 32 word) streambuf1_init))"
  by (simp add: setbuf_def setbuf1_def streambuf_init_def streambuf1_init_def streamerr1_init_def)

subsection \<open>Hard reset\<close>

text \<open>
  C6, as the code has it.  \<^verbatim>\<open>purge\<close> (\<^verbatim>\<open>uio.hpp\<close>) returns the value that
  \<^verbatim>\<open>in_avail()\<close> had, sets both cursors to zero, clears \<open>overflow\<close> and \<open>reserved\<close>,
  and sets \<open>uninitialized\<close> exactly when the storage is null.  \<^verbatim>\<open>clear\<close>
  (\<^verbatim>\<open>part_001\<close>) returns the same count and sets both cursors to zero, and clears
  every flag, \<open>uninitialized\<close> too, whether or not storage is bound.
\<close>

theorem purge_semantics:
  "fst (purge b) = in_avail b \<and>
   sb_getpos (snd (purge b)) = 0 \<and> sb_putpos (snd (purge b)) = 0 \<and>
   uninitialized (sb_error (snd (purge b))) = (sb_buf b = None) \<and>
   \<not> overflow (sb_error (snd (purge b))) \<and> reserved (sb_error (snd (purge b))) = 0 \<and>
   fst (streambuf_clear b1) = in_avail1 b1 \<and>
   sb1_getpos (snd (streambuf_clear b1)) = 0 \<and> sb1_putpos (snd (streambuf_clear b1)) = 0 \<and>
   \<not> uninitialized1 (sb1_error (snd (streambuf_clear b1))) \<and>
   \<not> overflow1 (sb1_error (snd (streambuf_clear b1)))"
  by (simp add: purge_def streambuf_clear_def in_avail_def in_avail1_def streamerr_clear_def
      streamerr1_clear_def)

text \<open>
  C6 as stated fails for \<^verbatim>\<open>clear\<close> of \<^verbatim>\<open>part_001\<close>: a read on the fresh, unbound
  buffer raises \<open>uninitialized\<close>, and \<^verbatim>\<open>clear\<close> then leaves it false although the
  storage is still null.
\<close>

theorem clear_unbound_counterexample:
  "getc (streambuf1_init :: 32 streambuf1)
     = Inr ((0, []), \<lparr>sb1_capacity = 0, sb1_getpos = 0, sb1_putpos = 0, sb1_buf = None,
             sb1_error = \<lparr>uninitialized1 = True, overflow1 = False\<rparr>\<rparr>) \<and>
   streambuf_clear \<lparr>sb1_capacity = 0 :: 32 word, sb1_getpos = 0, sb1_putpos = 0, sb1_buf = None,
             sb1_error = \<lparr>uninitialized1 = True, overflow1 = False\<rparr>\<rparr>
     = (0, \<lparr>sb1_capacity = 0, sb1_getpos = 0, sb1_putpos = 0, sb1_buf = None,
             sb1_error = \<lparr>uninitialized1 = False, overflow1 = False\<rparr>\<rparr>)"
  by (simp add: getc_def streambuf_clear_def streambuf1_init_def streamerr1_init_def
      streamerr1_clear_def set_uninitialized1_def)

subsection \<open>Transfers without storage\<close>

lemma uio_min_0: "uio_min 0 len = 0"
  by (simp add: uio_min_def) unat_arith

lemma unbound_reachable:
  assumes "run xs streambuf_init = Inr b" "sb_buf b = None"
  shows "sb_getpos b = 0" "sb_putpos b = 0" "uninitialized (sb_error b)"
proof -
  from assms(1) have "sb_inv b" by (rule sb_inv_reachable)
  with assms(2) show "sb_putpos b = 0" "uninitialized (sb_error b)"
    by (simp_all add: sb_inv_def)
  with \<open>sb_inv b\<close> show "sb_getpos b = 0" by (simp add: sb_inv_def)
qed

text \<open>
  C5, as the code has it.

  \<^verbatim>\<open>uio.hpp\<close>: let \<open>b\<close> be reached by any sequence of calls and have null storage.
  Then \<open>uninitialized\<close> is set (the constructor, \<^verbatim>\<open>setbuf\<close> and \<^verbatim>\<open>purge\<close> set it;
  no transfer touches the register); \<^verbatim>\<open>sgetc\<close> and \<^verbatim>\<open>sgetn\<close> return 0; when the
  capacity is 0, as after construction, \<^verbatim>\<open>sputc\<close> and \<^verbatim>\<open>sputn\<close> return 0 and leave
  the flag set; and \<^verbatim>\<open>setbuf\<close> with storage clears the flag.

  \<^verbatim>\<open>part_001\<close>: on every buffer with null storage, \<^verbatim>\<open>getc\<close>, \<^verbatim>\<open>getn\<close>,
  \<^verbatim>\<open>putbyte\<close> and \<^verbatim>\<open>putn\<close> return 0 and set \<open>uninitialized\<close>; \<^verbatim>\<open>setbuf\<close> with
  storage leaves the flag as it was.
\<close>

theorem unbound_transfers:
  assumes reach: "run xs streambuf_init = Inr b" and null: "sb_buf b = None"
    and null1: "sb1_buf b1 = None"
  shows "sgetc b = Inr ((0, []), b) \<and>
         sgetn len b = Inr ((0, []), b\<lparr>sb_dump := True\<rparr>) \<and>
         uninitialized (sb_error b) \<and>
         (sb_capacity b = 0 \<longrightarrow>
            sputc c b = Inr (0, check_dump b) \<and> sputn s len b = Inr (0, check_dump b) \<and>
            uninitialized (sb_error (check_dump b))) \<and>
         \<not> uninitialized (sb_error (setbuf (Some m) capacity b)) \<and>
         getc b1 = Inr ((0, []), set_uninitialized1 b1) \<and>
         getn len b1 = Inr ((0, []), set_uninitialized1 b1) \<and>
         putbyte c b1 = Inr (0, set_uninitialized1 b1) \<and>
         putn s len b1 = Inr (0, set_uninitialized1 b1) \<and>
         uninitialized1 (sb1_error (set_uninitialized1 b1)) \<and>
         uninitialized1 (sb1_error (setbuf1 (Some m) capacity b1)) = uninitialized1 (sb1_error b1)"
proof -
  note z = unbound_reachable [OF reach null]
  have "sgetc b = Inr ((0, []), b)" using z by (simp add: sgetc_def)
  moreover have "sgetn len b = Inr ((0, []), b\<lparr>sb_dump := True\<rparr>)"
  proof -
    have "b\<lparr>sb_getpos := 0, sb_dump := True\<rparr> = b\<lparr>sb_dump := True\<rparr>"
      using z(1) by (cases b) simp
    with z show ?thesis by (simp add: sgetn_def uio_min_0 mem_read_def)
  qed
  moreover have "sb_capacity b = 0 \<longrightarrow>
            sputc c b = Inr (0, check_dump b) \<and> sputn s len b = Inr (0, check_dump b) \<and>
            uninitialized (sb_error (check_dump b))"
    using z by (simp add: sputc_def sputn_def uio_min_0 memcpy_in_def mem_write_def
        check_dump_def)
  moreover have "\<not> uninitialized (sb_error (setbuf (Some m) capacity b))"
    by (simp add: setbuf_def)
  moreover have "getc b1 = Inr ((0, []), set_uninitialized1 b1)"
    "getn len b1 = Inr ((0, []), set_uninitialized1 b1)"
    "putbyte c b1 = Inr (0, set_uninitialized1 b1)"
    "putn s len b1 = Inr (0, set_uninitialized1 b1)"
    using null1 by (simp_all add: getc_def getn_def putbyte_def putn_def)
  moreover have "uninitialized1 (sb1_error (set_uninitialized1 b1))"
    "uninitialized1 (sb1_error (setbuf1 (Some m) capacity b1)) = uninitialized1 (sb1_error b1)"
    by (simp_all add: set_uninitialized1_def setbuf1_def)
  ultimately show ?thesis using z(3) by simp
qed

theorem unbound_transfers_witness:
  "run [Setbuf (Some [0, 0]) 2, SPutc 65, Setbuf None 0, SGetc] (streambuf_init :: 32 streambuf)
     = Inr \<lparr>sb_capacity = 0, sb_getpos = 0, sb_putpos = 0, sb_dump = False, sb_buf = None,
            sb_error = \<lparr>uninitialized = True, overflow = False, reserved = 0\<rparr>\<rparr> \<and>
   sb1_buf (streambuf1_init :: 32 streambuf1) = None \<and>
   sgetn 3 \<lparr>sb_capacity = 0 :: 32 word, sb_getpos = 0, sb_putpos = 0, sb_dump = False,
            sb_buf = None, sb_error = \<lparr>uninitialized = True, overflow = False, reserved = 0\<rparr>\<rparr>
     = Inr ((0, []), \<lparr>sb_capacity = 0, sb_getpos = 0, sb_putpos = 0, sb_dump = True,
            sb_buf = None, sb_error = \<lparr>uninitialized = True, overflow = False, reserved = 0\<rparr>\<rparr>) \<and>
   sputn [65, 66, 67] 3 \<lparr>sb_capacity = 0 :: 32 word, sb_getpos = 0, sb_putpos = 0,
            sb_dump = False, sb_buf = None,
            sb_error = \<lparr>uninitialized = True, overflow = False, reserved = 0\<rparr>\<rparr>
     = Inr (0, \<lparr>sb_capacity = 0, sb_getpos = 0, sb_putpos = 0, sb_dump = False,
            sb_buf = None, sb_error = \<lparr>uninitialized = True, overflow = False, reserved = 0\<rparr>\<rparr>) \<and>
   putn [65, 66, 67] 3 (streambuf1_init :: 32 streambuf1)
     = Inr (0, \<lparr>sb1_capacity = 0, sb1_getpos = 0, sb1_putpos = 0, sb1_buf = None,
             sb1_error = \<lparr>uninitialized1 = True, overflow1 = False\<rparr>\<rparr>)"
proof -
  let ?st = "\<lparr>sb_capacity = 0 :: 32 word, sb_getpos = 0, sb_putpos = 0, sb_dump = False,
     sb_buf = None, sb_error = \<lparr>uninitialized = True, overflow = False, reserved = 0\<rparr>\<rparr>"
  have reach: "run [Setbuf (Some [0, 0]) 2, SPutc 65, Setbuf None 0, SGetc] streambuf_init = Inr ?st"
    by (simp add: call_defs)
  have null: "sb_buf ?st = None" by simp
  have null1: "sb1_buf (streambuf1_init :: 32 streambuf1) = None"
    by (simp add: streambuf1_init_def)
  from unbound_transfers [OF reach null null1, of 3 65 "[65, 66, 67]" "[0]" 1] reach null1
  show ?thesis
    by (simp add: check_dump_def set_uninitialized1_def streambuf1_init_def streamerr1_init_def)
qed

text \<open>
  C5 as stated fails twice.  In \<^verbatim>\<open>uio.hpp\<close>, after \<^verbatim>\<open>setbuf(NULL, 1)\<close> a write does
  not return 0: it stores through the null pointer.  In \<^verbatim>\<open>part_001\<close>, binding
  storage after a read has raised \<open>uninitialized\<close> leaves the flag set.
\<close>

theorem unbound_transfers_counterexample:
  "sb_buf (setbuf None (1 :: 32 word) streambuf_init) = None \<and>
   sputc 65 (setbuf None (1 :: 32 word) streambuf_init) = Inl NullDeref \<and>
   sputn [65] 1 (setbuf None (1 :: 32 word) streambuf_init) = Inl NullDeref \<and>
   getc (streambuf1_init :: 32 streambuf1)
     = Inr ((0, []), \<lparr>sb1_capacity = 0, sb1_getpos = 0, sb1_putpos = 0, sb1_buf = None,
             sb1_error = \<lparr>uninitialized1 = True, overflow1 = False\<rparr>\<rparr>) \<and>
   uninitialized1 (sb1_error (setbuf1 (Some [0]) 1
      \<lparr>sb1_capacity = 0 :: 32 word, sb1_getpos = 0, sb1_putpos = 0, sb1_buf = None,
       sb1_error = \<lparr>uninitialized1 = True, overflow1 = False\<rparr>\<rparr>))"
  by (simp add: call_defs getc_def setbuf1_def streambuf1_init_def streamerr1_init_def
      set_uninitialized1_def)

subsection \<open>Line extraction\<close>







end
